theory Spec2Isabelle
  imports Main "HOL-Library.Word"
begin

section \<open>The contract InheritanceAiFhe (contracts/Inheritance_AI_Fhe.sol)\<close>

text \<open>
  A shallow embedding of the Solidity contract. Every external function is a HOL function
  from the message (\<open>msg.sender\<close>, \<open>block.timestamp\<close>), its arguments and the storage to
  either a revert reason (\<open>Inl\<close>) or the storage after the call (\<open>Inr\<close>). The event log
  is a field of the storage record, so that "emits no event" can be stated. A reverted
  transaction leaves the storage as it was (\<open>transact\<close>).
\<close>

subsection \<open>Value types\<close>

type_synonym address = "160 word"
type_synonym uint256 = "256 word"
type_synonym bytes32 = "256 word"
type_synonym bytes = "8 word list"

text \<open>
  \<open>euint32\<close> and \<open>ebool\<close> are the ciphertext handles of the imported FHE library: 32-byte
  values whose storage default is zero. What the library computes on them is not part of
  this repository; it is the parameter \<open>fhevm\<close> below.
\<close>

type_synonym euint32 = "256 word"
type_synonym ebool = "256 word"

subsection \<open>Custom errors and events\<close>

text \<open>
  The nine custom errors of the contract, and the two failures of the language itself:
  \<open>Panic\<close> is the checked arithmetic of Solidity 0.8 (overflow of \<open>+\<close> and \<open>++\<close>),
  \<open>AbiRevert\<close> a slice out of range or a failing \<open>abi.decode\<close>.
\<close>

datatype error =
    NotOwner
  | NotProvider
  | Paused
  | CooldownActive
  | BatchClosedOrInvalid
  | InvalidThreshold
  | ReplayDetected
  | StateMismatch
  | DecryptionFailed
  | Panic
  | AbiRevert

datatype event =
    OwnershipTransferred address address
  | ProviderAdded address
  | ProviderRemoved address
  | PauseToggled bool
  | CooldownSecondsUpdated uint256 uint256
  | BatchOpened uint256
  | BatchClosed uint256
  | SignalSubmitted address uint256
  | ThresholdSet uint256 uint256
  | DecryptionRequested uint256 uint256
  | DecryptionCompleted uint256 uint256 uint256 uint256 bool

subsection \<open>Storage\<close>

record DecryptionContext =
  batchId :: uint256
  stateHash :: bytes32
  processed :: bool

record contract =
  owner :: address
  isProvider :: "address \<Rightarrow> bool"
  paused :: bool
  cooldownSeconds :: uint256
  lastSubmissionTime :: "address \<Rightarrow> uint256"
  lastDecryptionRequestTime :: "address \<Rightarrow> uint256"
  currentBatchId :: uint256
  batchClosed :: "uint256 \<Rightarrow> bool"
  decryptionContexts :: "uint256 \<Rightarrow> DecryptionContext"
  encryptedLastSignalTimestamp :: euint32
  encryptedInactivityThreshold :: euint32
  events :: "event list"

record msg =
  sender :: address
  timestamp :: uint256

subsection \<open>The imported library and the builtins\<close>

text \<open>
  The operations of \<open>@fhevm/solidity/lib/FHE.sol\<close> that the contract calls, the hash
  \<open>keccak256(abi.encode(cts, address(this)))\<close> and the contract's own address. None of
  them is defined in the repository: the contract is verified for every value of this
  record. The operations are total functions here; the id that
  \<open>FHE.requestDecryption\<close> returns is an argument of \<open>checkInheritanceTrigger\<close>.
\<close>

record fhevm =
  asEuint32 :: "uint256 \<Rightarrow> euint32"
  fhe_max :: "euint32 \<Rightarrow> euint32 \<Rightarrow> euint32"
  fhe_sub :: "euint32 \<Rightarrow> euint32 \<Rightarrow> euint32"
  fhe_ge :: "euint32 \<Rightarrow> euint32 \<Rightarrow> ebool"
  isInitialized :: "euint32 \<Rightarrow> bool"
  toBytes32 :: "256 word \<Rightarrow> bytes32"
  checkSignatures :: "uint256 \<Rightarrow> bytes \<Rightarrow> bytes \<Rightarrow> bool"
  keccak256_abi_encode :: "bytes32 list \<Rightarrow> address \<Rightarrow> bytes32"
  this :: address

subsection \<open>Checked arithmetic, slices and decoding\<close>

definition checked_add :: "uint256 \<Rightarrow> uint256 \<Rightarrow> error + uint256" where
  "checked_add a b = (if unat a + unat b < 2 ^ 256 then Inr (a + b) else Inl Panic)"

text \<open>Sequencing of steps that may revert: the first revert ends the call.\<close>

definition andThen :: "error + 'a \<Rightarrow> ('a \<Rightarrow> error + 'b) \<Rightarrow> error + 'b" where
  "andThen r f = (case r of Inl e \<Rightarrow> Inl e | Inr x \<Rightarrow> f x)"

definition slice :: "bytes \<Rightarrow> nat \<Rightarrow> nat \<Rightarrow> error + bytes" where
  "slice bs i j = (if i \<le> j \<and> j \<le> length bs then Inr (take (j - i) (drop i bs)) else Inl AbiRevert)"

definition abi_decode_uint256 :: "bytes \<Rightarrow> error + uint256" where
  "abi_decode_uint256 bs = (if length bs < 32 then Inl AbiRevert else Inr (word_rcat (take 32 bs)))"

definition abi_decode_bool :: "bytes \<Rightarrow> error + bool" where
  "abi_decode_bool bs =
     andThen (abi_decode_uint256 bs)
       (\<lambda>w. if w = 0 then Inr False else if w = 1 then Inr True else Inl AbiRevert)"

definition abi_encode_uint256 :: "uint256 \<Rightarrow> bytes" where
  "abi_encode_uint256 w = map (\<lambda>i. ucast (drop_bit (8 * (31 - i)) w)) [0..<32]"

definition abi_encode_bool :: "bool \<Rightarrow> bytes" where
  "abi_encode_bool b = abi_encode_uint256 (if b then 1 else 0)"


subsection \<open>Modifiers\<close>

text \<open>A modifier wraps the body of the function: it reverts, or runs the body (\<open>_;\<close>).\<close>

definition onlyOwner :: "msg \<Rightarrow> (contract \<Rightarrow> error + contract) \<Rightarrow> contract \<Rightarrow> error + contract" where
  "onlyOwner m body s = (if sender m \<noteq> owner s then Inl NotOwner else body s)"

definition onlyProvider :: "msg \<Rightarrow> (contract \<Rightarrow> error + contract) \<Rightarrow> contract \<Rightarrow> error + contract" where
  "onlyProvider m body s = (if \<not> isProvider s (sender m) then Inl NotProvider else body s)"

definition whenNotPaused :: "(contract \<Rightarrow> error + contract) \<Rightarrow> contract \<Rightarrow> error + contract" where
  "whenNotPaused body s = (if paused s then Inl Paused else body s)"

definition checkSubmissionCooldown :: "msg \<Rightarrow> (contract \<Rightarrow> error + contract) \<Rightarrow> contract \<Rightarrow> error + contract" where
  "checkSubmissionCooldown m body s =
     (case checked_add (lastSubmissionTime s (sender m)) (cooldownSeconds s) of
        Inl e \<Rightarrow> Inl e
      | Inr limit \<Rightarrow> if timestamp m < limit then Inl CooldownActive else body s)"

definition checkDecryptionCooldown :: "msg \<Rightarrow> (contract \<Rightarrow> error + contract) \<Rightarrow> contract \<Rightarrow> error + contract" where
  "checkDecryptionCooldown m body s =
     (case checked_add (lastDecryptionRequestTime s (sender m)) (cooldownSeconds s) of
        Inl e \<Rightarrow> Inl e
      | Inr limit \<Rightarrow> if timestamp m < limit then Inl CooldownActive else body s)"

definition emit :: "event \<Rightarrow> contract \<Rightarrow> contract" where
  "emit e s = s\<lparr>events := events s @ [e]\<rparr>"

subsection \<open>Constructor and administration\<close>

definition constructor :: "msg \<Rightarrow> contract" where
  "constructor m =
     \<lparr>owner = sender m,
      isProvider = (\<lambda>_. False)(sender m := True),
      paused = False,
      cooldownSeconds = 60,
      lastSubmissionTime = (\<lambda>_. 0),
      lastDecryptionRequestTime = (\<lambda>_. 0),
      currentBatchId = 1,
      batchClosed = (\<lambda>_. False),
      decryptionContexts = (\<lambda>_. \<lparr>batchId = 0, stateHash = 0, processed = False\<rparr>),
      encryptedLastSignalTimestamp = 0,
      encryptedInactivityThreshold = 0,
      events = [ProviderAdded (sender m), BatchOpened 1]\<rparr>"

definition transferOwnership :: "msg \<Rightarrow> address \<Rightarrow> contract \<Rightarrow> error + contract" where
  "transferOwnership m newOwner =
     onlyOwner m (\<lambda>s.
       let previousOwner = owner s;
           s1 = s\<lparr>owner := newOwner\<rparr>
       in Inr (emit (OwnershipTransferred previousOwner newOwner) s1))"

definition addProvider :: "msg \<Rightarrow> address \<Rightarrow> contract \<Rightarrow> error + contract" where
  "addProvider m provider =
     onlyOwner m (\<lambda>s.
       if \<not> isProvider s provider
       then Inr (emit (ProviderAdded provider) (s\<lparr>isProvider := (isProvider s)(provider := True)\<rparr>))
       else Inr s)"

definition removeProvider :: "msg \<Rightarrow> address \<Rightarrow> contract \<Rightarrow> error + contract" where
  "removeProvider m provider =
     onlyOwner m (\<lambda>s.
       if isProvider s provider
       then Inr (emit (ProviderRemoved provider) (s\<lparr>isProvider := (isProvider s)(provider := False)\<rparr>))
       else Inr s)"

definition setPaused :: "msg \<Rightarrow> bool \<Rightarrow> contract \<Rightarrow> error + contract" where
  "setPaused m p =
     onlyOwner m (\<lambda>s. Inr (emit (PauseToggled p) (s\<lparr>paused := p\<rparr>)))"

definition setCooldownSeconds :: "msg \<Rightarrow> uint256 \<Rightarrow> contract \<Rightarrow> error + contract" where
  "setCooldownSeconds m newCooldown =
     onlyOwner m (\<lambda>s.
       let oldCooldown = cooldownSeconds s;
           s1 = s\<lparr>cooldownSeconds := newCooldown\<rparr>
       in Inr (emit (CooldownSecondsUpdated oldCooldown newCooldown) s1))"

subsection \<open>Batches\<close>

definition openNewBatch :: "msg \<Rightarrow> contract \<Rightarrow> error + contract" where
  "openNewBatch m =
     onlyOwner m (whenNotPaused (\<lambda>s.
       case checked_add (currentBatchId s) 1 of
         Inl e \<Rightarrow> Inl e
       | Inr n \<Rightarrow>
           let s1 = s\<lparr>currentBatchId := n\<rparr>;
               s2 = s1\<lparr>batchClosed := (batchClosed s1)(currentBatchId s1 := False)\<rparr>
           in Inr (emit (BatchOpened (currentBatchId s2)) s2)))"

definition closeCurrentBatch :: "msg \<Rightarrow> contract \<Rightarrow> error + contract" where
  "closeCurrentBatch m =
     onlyOwner m (whenNotPaused (\<lambda>s.
       let s1 = s\<lparr>batchClosed := (batchClosed s)(currentBatchId s := True)\<rparr>
       in Inr (emit (BatchClosed (currentBatchId s1)) s1)))"

subsection \<open>Life signals and the threshold\<close>

text \<open>
  \<open>_initIfNeeded(euint32 storage target, euint32 memory value)\<close> assigns \<open>value\<close> to its
  own parameter \<open>target\<close> and returns nothing. The model returns the storage, which the
  assignment does not touch, together with the last value of the local \<open>target\<close>, which
  the caller cannot read.
\<close>

definition initIfNeeded :: "fhevm \<Rightarrow> contract \<Rightarrow> euint32 \<Rightarrow> euint32 \<Rightarrow> contract \<times> euint32" where
  "initIfNeeded F s target val =
     (if \<not> isInitialized F target then (s, val) else (s, target))"

definition submitLifeSignal :: "fhevm \<Rightarrow> msg \<Rightarrow> uint256 \<Rightarrow> contract \<Rightarrow> error + contract" where
  "submitLifeSignal F m encryptedTimestamp =
     onlyProvider m (whenNotPaused (checkSubmissionCooldown m (\<lambda>s.
       if batchClosed s (currentBatchId s) then Inl BatchClosedOrInvalid
       else
         let s1 = s\<lparr>lastSubmissionTime := (lastSubmissionTime s)(sender m := timestamp m)\<rparr>;
             newTimestamp = asEuint32 F encryptedTimestamp;
             s2 = fst (initIfNeeded F s1 (encryptedLastSignalTimestamp s1) newTimestamp);
             s3 = s2\<lparr>encryptedLastSignalTimestamp :=
                       fhe_max F (encryptedLastSignalTimestamp s2) newTimestamp\<rparr>
         in Inr (emit (SignalSubmitted (sender m) (currentBatchId s3)) s3))))"


definition setInactivityThreshold :: "fhevm \<Rightarrow> msg \<Rightarrow> uint256 \<Rightarrow> contract \<Rightarrow> error + contract" where
  "setInactivityThreshold F m encryptedThreshold =
     onlyOwner m (whenNotPaused (\<lambda>s.
       let threshold = asEuint32 F encryptedThreshold
       in if \<not> isInitialized F threshold then Inl InvalidThreshold
          else
            let s1 = s\<lparr>encryptedInactivityThreshold := threshold\<rparr>
            in Inr (emit (ThresholdSet (currentBatchId s1) encryptedThreshold) s1)))"

subsection \<open>The decryption request and its callback\<close>

definition hashCiphertexts :: "fhevm \<Rightarrow> bytes32 list \<Rightarrow> bytes32" where
  "hashCiphertexts F cts = keccak256_abi_encode F cts (this F)"

text \<open>
  The three handles that both \<open>checkInheritanceTrigger\<close> and \<open>myCallback\<close> build, in the
  same order, from the storage and from \<open>block.timestamp\<close> of their own transaction.
\<close>

definition ciphertexts :: "fhevm \<Rightarrow> msg \<Rightarrow> contract \<Rightarrow> bytes32 list" where
  "ciphertexts F m s =
     (let timeSinceLastSignal = fhe_sub F (asEuint32 F (timestamp m)) (encryptedLastSignalTimestamp s);
          trigger = fhe_ge F timeSinceLastSignal (encryptedInactivityThreshold s)
      in [toBytes32 F (encryptedLastSignalTimestamp s),
          toBytes32 F (encryptedInactivityThreshold s),
          toBytes32 F trigger])"

text \<open>
  In \<open>checkInheritanceTrigger\<close> the list \<open>cts\<close> is both what is hashed and what is
  handed to \<open>FHE.requestDecryption\<close>, whose answer is the argument \<open>requestId\<close>.
\<close>

definition checkInheritanceTrigger :: "fhevm \<Rightarrow> msg \<Rightarrow> uint256 \<Rightarrow> contract \<Rightarrow> error + contract" where
  "checkInheritanceTrigger F m requestId =
     whenNotPaused (checkDecryptionCooldown m (\<lambda>s.
       if \<not> isInitialized F (encryptedLastSignalTimestamp s)
          \<or> \<not> isInitialized F (encryptedInactivityThreshold s)
       then Inl InvalidThreshold
       else if batchClosed s (currentBatchId s) then Inl BatchClosedOrInvalid
       else
         let s1 = s\<lparr>lastDecryptionRequestTime := (lastDecryptionRequestTime s)(sender m := timestamp m)\<rparr>;
             cts = ciphertexts F m s1;
             h = hashCiphertexts F cts;
             s2 = s1\<lparr>decryptionContexts := (decryptionContexts s1)
                       (requestId := \<lparr>batchId = currentBatchId s1, stateHash = h, processed = False\<rparr>)\<rparr>
         in Inr (emit (DecryptionRequested requestId (currentBatchId s2)) s2)))"

definition myCallback :: "fhevm \<Rightarrow> msg \<Rightarrow> uint256 \<Rightarrow> bytes \<Rightarrow> bytes \<Rightarrow> contract \<Rightarrow> error + contract" where
  "myCallback F m requestId cleartexts prf s =
     (if processed (decryptionContexts s requestId) then Inl ReplayDetected
      else
        let cts = ciphertexts F m s;
            currentHash = hashCiphertexts F cts
        in if currentHash \<noteq> stateHash (decryptionContexts s requestId) then Inl StateMismatch
           else if \<not> checkSignatures F requestId cleartexts prf then Inl DecryptionFailed
           else
             andThen (slice cleartexts 0 32) (\<lambda>b0.
             andThen (abi_decode_uint256 b0) (\<lambda>lastSignal.
             andThen (slice cleartexts 32 64) (\<lambda>b1.
             andThen (abi_decode_uint256 b1) (\<lambda>threshold.
             andThen (slice cleartexts 64 96) (\<lambda>b2.
             andThen (abi_decode_bool b2) (\<lambda>triggerInheritance.
               let s1 = s\<lparr>decryptionContexts := (decryptionContexts s)
                          (requestId := (decryptionContexts s requestId)\<lparr>processed := True\<rparr>)\<rparr>
               in Inr (emit (DecryptionCompleted requestId (batchId (decryptionContexts s1 requestId))
                               lastSignal threshold triggerInheritance) s1))))))))"

subsection \<open>Transactions\<close>

datatype call =
    TransferOwnership address
  | AddProvider address
  | RemoveProvider address
  | SetPaused bool
  | SetCooldownSeconds uint256
  | OpenNewBatch
  | CloseCurrentBatch
  | SubmitLifeSignal uint256
  | SetInactivityThreshold uint256
  | CheckInheritanceTrigger uint256
  | MyCallback uint256 bytes bytes

fun exec :: "fhevm \<Rightarrow> msg \<Rightarrow> call \<Rightarrow> contract \<Rightarrow> error + contract" where
  "exec F m (TransferOwnership a) s = transferOwnership m a s"
| "exec F m (AddProvider a) s = addProvider m a s"
| "exec F m (RemoveProvider a) s = removeProvider m a s"
| "exec F m (SetPaused p) s = setPaused m p s"
| "exec F m (SetCooldownSeconds c) s = setCooldownSeconds m c s"
| "exec F m OpenNewBatch s = openNewBatch m s"
| "exec F m CloseCurrentBatch s = closeCurrentBatch m s"
| "exec F m (SubmitLifeSignal t) s = submitLifeSignal F m t s"
| "exec F m (SetInactivityThreshold t) s = setInactivityThreshold F m t s"
| "exec F m (CheckInheritanceTrigger r) s = checkInheritanceTrigger F m r s"
| "exec F m (MyCallback r c p) s = myCallback F m r c p s"

text \<open>A transaction: a revert rolls the storage back.\<close>

definition transact :: "fhevm \<Rightarrow> contract \<Rightarrow> msg \<times> call \<Rightarrow> contract" where
  "transact F s tx = (case exec F (fst tx) (snd tx) s of Inl e \<Rightarrow> s | Inr s' \<Rightarrow> s')"

definition run :: "fhevm \<Rightarrow> contract \<Rightarrow> (msg \<times> call) list \<Rightarrow> contract" where
  "run F s txs = foldl (transact F) s txs"

text \<open>The calls that carry the modifier \<open>onlyOwner\<close>.\<close>

fun ownerOnly :: "call \<Rightarrow> bool" where
  "ownerOnly (SubmitLifeSignal t) = False"
| "ownerOnly (CheckInheritanceTrigger r) = False"
| "ownerOnly (MyCallback r c p) = False"
| "ownerOnly c = True"

subsection \<open>A cleartext stand-in for the library\<close>

text \<open>
  One value of \<open>fhevm\<close> on which the contract can be run: a handle is the cleartext in
  its low 32 bits under a tag for the operation that made it (1 for \<open>asEuint32\<close>, 2 for
  \<open>max\<close>, 3 for \<open>sub\<close>, 4 for \<open>ge\<close>); an uninitialised operand counts as zero; the zero
  handle is the uninitialised one; the hash is an odd number, a polynomial over the
  handles. It is used to run the theorems at concrete inputs only: no theorem is about
  it.
\<close>

definition clear32 :: "256 word \<Rightarrow> 32 word" where
  "clear32 h = ucast h"

definition standin :: fhevm where
  "standin =
     \<lparr>asEuint32 = (\<lambda>x. 4294967296 + ucast (clear32 x)),
      fhe_max = (\<lambda>a b. 2 * 4294967296 + ucast (max (clear32 a) (clear32 b))),
      fhe_sub = (\<lambda>a b. 3 * 4294967296 + ucast (clear32 a - clear32 b)),
      fhe_ge = (\<lambda>a b. 4 * 4294967296 + (if clear32 b \<le> clear32 a then 1 else 0)),
      isInitialized = (\<lambda>h. h \<noteq> 0),
      toBytes32 = (\<lambda>h. h),
      checkSignatures = (\<lambda>requestId cleartexts prf. prf = [1]),
      keccak256_abi_encode = (\<lambda>cts a. 1 + 2 * foldl (\<lambda>h c. h * 1000003 + c) (ucast a) cts),
      this = 49374\<rparr>"



subsection \<open>Concrete states\<close>

text \<open>
  The contract as account 1 deploys it, and states reached from there by transactions:
  a life signal of 1000 at time 100, the threshold 500, a trigger check at time 1600 (or
  1400, or 700) by account 2, the oracle's callback, a second life signal (of 1650, or of
  900), and the first life signal under the strict library.
\<close>

definition deployed :: contract where
  "deployed = constructor \<lparr>sender = 1, timestamp = 0\<rparr>"

definition deployed_paused :: contract where
  "deployed_paused = run standin deployed [(\<lparr>sender = 1, timestamp = 50\<rparr>, SetPaused True)]"

definition signalled :: contract where
  "signalled = run standin deployed [(\<lparr>sender = 1, timestamp = 100\<rparr>, SubmitLifeSignal 1000)]"

definition armed :: contract where
  "armed = run standin signalled [(\<lparr>sender = 1, timestamp = 200\<rparr>, SetInactivityThreshold 500)]"

definition requested :: contract where
  "requested = run standin armed [(\<lparr>sender = 2, timestamp = 1600\<rparr>, CheckInheritanceTrigger 7)]"


definition completed :: contract where
  "completed = run standin requested
     [(\<lparr>sender = 3, timestamp = 1600\<rparr>,
       MyCallback 7 (abi_encode_uint256 1000 @ abi_encode_uint256 500 @ abi_encode_bool True) [1])]"

definition resignalled :: contract where
  "resignalled = run standin requested [(\<lparr>sender = 1, timestamp = 1700\<rparr>, SubmitLifeSignal 1650)]"



definition resignalled_stale :: contract where
  "resignalled_stale = run standin requested [(\<lparr>sender = 1, timestamp = 1700\<rparr>, SubmitLifeSignal 900)]"

definition stale_completed :: contract where
  "stale_completed = run standin resignalled_stale
     [(\<lparr>sender = 3, timestamp = 1800\<rparr>,
       MyCallback 7 (abi_encode_uint256 1000 @ abi_encode_uint256 500 @ abi_encode_bool True) [1])]"


definition deployed_long_cooldown :: contract where
  "deployed_long_cooldown = run standin signalled
     [(\<lparr>sender = 1, timestamp = 150\<rparr>,
        SetCooldownSeconds 115792089237316195423570985008687907853269984665640564039457584007913129639935)]"

definition renounced :: contract where
  "renounced = deployed\<lparr>owner := 0, events := events deployed @ [OwnershipTransferred 1 0]\<rparr>"

section \<open>Verification\<close>

subsection \<open>Unfolding and arithmetic\<close>

lemmas modifier_defs = onlyOwner_def onlyProvider_def whenNotPaused_def
  checkSubmissionCooldown_def checkDecryptionCooldown_def emit_def

lemma checked_add_Inr: "unat a + unat b < 2 ^ 256 \<Longrightarrow> checked_add a b = Inr (a + b)"
  by (simp add: checked_add_def)

lemma checked_add_Inl: "2 ^ 256 \<le> unat a + unat b \<Longrightarrow> checked_add a b = Inl Panic"
  by (simp add: checked_add_def)

lemma unat_add_fits: "unat (a :: uint256) + unat b < 2 ^ 256 \<Longrightarrow> unat (a + b) = unat a + unat b"
  by (rule unat_add_lem [THEN iffD1]) simp

lemma less_iff_fits:
  "unat (a :: uint256) + unat b < 2 ^ 256 \<Longrightarrow> (t < a + b) = (unat t < unat a + unat b)"
  by (simp add: word_less_nat_alt unat_add_fits)

lemmas function_defs = transferOwnership_def addProvider_def removeProvider_def setPaused_def
  setCooldownSeconds_def openNewBatch_def closeCurrentBatch_def submitLifeSignal_def
  setInactivityThreshold_def checkInheritanceTrigger_def myCallback_def

lemma run_Nil: "run F s [] = s"
  by (simp add: run_def)

lemma run_Cons: "run F s (tx # txs) = run F (transact F s tx) txs"
  by (simp add: run_def)

lemma run_snoc: "run F s (txs @ [tx]) = transact F (run F s txs) tx"
  by (simp add: run_def)

lemma word_le_add_fits: "unat (a :: uint256) + unat b < 2 ^ 256 \<Longrightarrow> a \<le> a + b"
  by (simp add: word_le_nat_alt unat_add_fits)

lemma myCallback_Inr:
  "myCallback F m r c p s = Inr s' \<Longrightarrow>
     \<exists>ev. s' = s\<lparr>decryptionContexts := (decryptionContexts s)
                     (r := (decryptionContexts s r)\<lparr>processed := True\<rparr>),
                   events := events s @ [ev]\<rparr>"
  by (auto simp: myCallback_def andThen_def emit_def Let_def split: if_splits sum.splits)

lemma exec_currentBatchId: "exec F m c s = Inr s' \<Longrightarrow> currentBatchId s \<le> currentBatchId s'"
proof (cases c)
  case OpenNewBatch
  assume "exec F m c s = Inr s'"
  with OpenNewBatch show ?thesis
    by (auto simp: openNewBatch_def modifier_defs checked_add_def Let_def word_le_add_fits
        split: if_splits)
next
  case (MyCallback r ct p)
  assume "exec F m c s = Inr s'"
  with MyCallback show ?thesis by (auto dest: myCallback_Inr)
qed (auto simp: function_defs modifier_defs initIfNeeded_def Let_def split: if_splits sum.splits)

lemma transact_currentBatchId: "currentBatchId s \<le> currentBatchId (transact F s tx)"
  by (cases "exec F (fst tx) (snd tx) s") (auto simp: transact_def dest: exec_currentBatchId)

lemma run_currentBatchId: "currentBatchId s \<le> currentBatchId (run F s txs)"
proof (induction txs arbitrary: s)
  case Nil
  show ?case by (simp add: run_Nil)
next
  case (Cons tx txs)
  have "currentBatchId s \<le> currentBatchId (transact F s tx)" by (rule transact_currentBatchId)
  also have "\<dots> \<le> currentBatchId (run F (transact F s tx) txs)" by (rule Cons.IH)
  finally show ?case by (simp add: run_Cons)
qed

lemma exec_owner_zero:
  "owner s = 0 \<Longrightarrow> sender m \<noteq> 0 \<Longrightarrow> exec F m c s = Inr s' \<Longrightarrow> owner s' = 0"
proof (cases c)
  case (MyCallback r ct p)
  assume "exec F m c s = Inr s'" "owner s = 0"
  with MyCallback show ?thesis by (auto dest: myCallback_Inr)
qed (auto simp: function_defs modifier_defs initIfNeeded_def Let_def split: if_splits sum.splits)

lemma run_owner_zero:
  "owner s = 0 \<Longrightarrow> \<forall>tx \<in> set txs. sender (fst tx) \<noteq> 0 \<Longrightarrow> owner (run F s txs) = 0"
proof (induction txs arbitrary: s)
  case Nil
  then show ?case by (simp add: run_Nil)
next
  case (Cons tx txs)
  have "owner (transact F s tx) = 0"
    using Cons.prems
    by (cases "exec F (fst tx) (snd tx) s") (auto simp: transact_def dest: exec_owner_zero)
  with Cons show ?case by (simp add: run_Cons)
qed

lemma ownerOnly_NotOwner: "ownerOnly c \<Longrightarrow> sender m \<noteq> owner s \<Longrightarrow> exec F m c s = Inl NotOwner"
  by (cases c) (simp_all add: function_defs modifier_defs)

lemmas eval_defs = run_def transact_def function_defs modifier_defs constructor_def deployed_def
  standin_def clear32_def checked_add_def initIfNeeded_def Let_def andThen_def
  hashCiphertexts_def ciphertexts_def


subsection \<open>Order of the checks of checkInheritanceTrigger\<close>

text \<open>
  C5, as the claim states it, fails: the modifiers \<open>whenNotPaused\<close> and
  \<open>checkDecryptionCooldown\<close> run before the body, so a paused contract whose threshold
  is not initialised reverts with \<open>Paused\<close>, not with \<open>InvalidThreshold\<close>.
\<close>

theorem checkInheritanceTrigger_paused_first:
  "\<not> isInitialized standin (encryptedInactivityThreshold deployed_paused)
   \<and> paused deployed_paused
   \<and> checkInheritanceTrigger standin \<lparr>sender = 2, timestamp = 100\<rparr> 7 deployed_paused = Inl Paused
   \<and> checkInheritanceTrigger standin \<lparr>sender = 2, timestamp = 100\<rparr> 7 deployed_paused \<noteq> Inl InvalidThreshold"
  by (simp add: deployed_paused_def eval_defs)

text \<open>
  C5, amended: \<open>checkInheritanceTrigger\<close> checks, in this order, that the contract is
  not paused (\<open>Paused\<close>), that the caller's cooldown has elapsed (\<open>CooldownActive\<close>; the
  sum \<open>lastDecryptionRequestTime[caller] + cooldownSeconds\<close> is checked arithmetic and
  reverts with a panic when it overflows), that both encrypted values are initialised
  (\<open>InvalidThreshold\<close>), and that the current batch is open (\<open>BatchClosedOrInvalid\<close>);
  when all four pass the call succeeds.
\<close>

theorem checkInheritanceTrigger_order:
  fixes F m r s
  defines "L \<equiv> unat (lastDecryptionRequestTime s (sender m)) + unat (cooldownSeconds s)"
  defines "res \<equiv> checkInheritanceTrigger F m r s"
  defines "uninit \<equiv> \<not> isInitialized F (encryptedLastSignalTimestamp s) \<or> \<not> isInitialized F (encryptedInactivityThreshold s)"
  shows "(paused s \<longrightarrow> res = Inl Paused)
       \<and> (\<not> paused s \<and> 2 ^ 256 \<le> L \<longrightarrow> res = Inl Panic)
       \<and> (\<not> paused s \<and> L < 2 ^ 256 \<and> unat (timestamp m) < L \<longrightarrow> res = Inl CooldownActive)
       \<and> (\<not> paused s \<and> L \<le> unat (timestamp m) \<and> uninit \<longrightarrow> res = Inl InvalidThreshold)
       \<and> (\<not> paused s \<and> L \<le> unat (timestamp m) \<and> \<not> uninit \<and> batchClosed s (currentBatchId s)
            \<longrightarrow> res = Inl BatchClosedOrInvalid)
       \<and> (\<not> paused s \<and> L \<le> unat (timestamp m) \<and> \<not> uninit \<and> \<not> batchClosed s (currentBatchId s)
            \<longrightarrow> (\<exists>s'. res = Inr s'))"
proof -
  have fits: "L \<le> unat (timestamp m) \<Longrightarrow> L < 2 ^ 256"
    using unsigned_less [of "timestamp m", where 'a = nat] by simp
  have lim: "L \<le> unat (timestamp m) \<Longrightarrow>
      checked_add (lastDecryptionRequestTime s (sender m)) (cooldownSeconds s)
        = Inr (lastDecryptionRequestTime s (sender m) + cooldownSeconds s)
      \<and> \<not> timestamp m < lastDecryptionRequestTime s (sender m) + cooldownSeconds s"
    using fits by (simp add: L_def checked_add_Inr less_iff_fits)
  show ?thesis
    unfolding res_def uninit_def checkInheritanceTrigger_def
    apply (intro conjI impI)
         apply (simp add: modifier_defs)
        apply (simp add: modifier_defs checked_add_Inl L_def)
       apply (simp add: modifier_defs checked_add_Inr less_iff_fits L_def)
      apply (simp add: modifier_defs lim)
     apply (simp add: modifier_defs lim)
    apply (simp add: modifier_defs lim Let_def)
    done
qed


theorem checkInheritanceTrigger_order_witness:
  "checkInheritanceTrigger standin \<lparr>sender = 2, timestamp = 100\<rparr> 7 deployed_paused = Inl Paused
   \<and> checkInheritanceTrigger standin \<lparr>sender = 2, timestamp = 100\<rparr> 7 deployed = Inl InvalidThreshold
   \<and> checkInheritanceTrigger standin \<lparr>sender = 2, timestamp = 10\<rparr> 7 deployed = Inl CooldownActive"
  using checkInheritanceTrigger_order [of deployed_paused standin "\<lparr>sender = 2, timestamp = 100\<rparr>" 7]
    checkInheritanceTrigger_order [of deployed standin "\<lparr>sender = 2, timestamp = 100\<rparr>" 7]
    checkInheritanceTrigger_order [of deployed standin "\<lparr>sender = 2, timestamp = 10\<rparr>" 7]
  by (simp add: deployed_paused_def eval_defs)

subsection \<open>Batches\<close>

text \<open>
  C7: \<open>currentBatchId\<close> is 1 after construction and never decreases along any sequence
  of transactions; a successful \<open>openNewBatch\<close> adds one to it (without wrap-around) and
  marks the new id not closed; a successful \<open>closeCurrentBatch\<close> leaves it as it is and
  sets the closed flag of exactly the current id.
\<close>

theorem currentBatchId_increases:
  "currentBatchId (constructor d) = 1
   \<and> currentBatchId s \<le> currentBatchId (run F s txs)
   \<and> (openNewBatch m s = Inr s' \<longrightarrow>
         unat (currentBatchId s') = unat (currentBatchId s) + 1
         \<and> batchClosed s' = (batchClosed s)(currentBatchId s' := False))
   \<and> (closeCurrentBatch m s = Inr s'' \<longrightarrow>
         currentBatchId s'' = currentBatchId s
         \<and> batchClosed s'' = (batchClosed s)(currentBatchId s := True))"
proof (intro conjI impI)
  show "currentBatchId (constructor d) = 1" by (simp add: constructor_def)
  show "currentBatchId s \<le> currentBatchId (run F s txs)" by (rule run_currentBatchId)
next
  assume "openNewBatch m s = Inr s'"
  then have *: "unat (currentBatchId s) + unat (1 :: uint256) < 2 ^ 256"
    and s': "s' = s\<lparr>currentBatchId := currentBatchId s + 1,
                 batchClosed := (batchClosed s)(currentBatchId s + 1 := False),
                 events := events s @ [BatchOpened (currentBatchId s + 1)]\<rparr>"
    by (auto simp: openNewBatch_def modifier_defs checked_add_def Let_def split: if_splits)
  from * show "unat (currentBatchId s') = unat (currentBatchId s) + 1"
    using unat_add_fits [OF *] by (simp add: s')
  show "batchClosed s' = (batchClosed s)(currentBatchId s' := False)" by (simp add: s')
next
  assume c: "closeCurrentBatch m s = Inr s''"
  then show "currentBatchId s'' = currentBatchId s"
    by (auto simp: closeCurrentBatch_def modifier_defs Let_def split: if_splits)
  from c show "batchClosed s'' = (batchClosed s)(currentBatchId s := True)"
    by (auto simp: closeCurrentBatch_def modifier_defs Let_def split: if_splits)
qed

theorem currentBatchId_increases_witness:
  "openNewBatch \<lparr>sender = 1, timestamp = 10\<rparr> deployed
     = Inr (transact standin deployed (\<lparr>sender = 1, timestamp = 10\<rparr>, OpenNewBatch))
   \<and> unat (currentBatchId (transact standin deployed (\<lparr>sender = 1, timestamp = 10\<rparr>, OpenNewBatch))) = 2
   \<and> closeCurrentBatch \<lparr>sender = 1, timestamp = 10\<rparr> deployed
     = Inr (transact standin deployed (\<lparr>sender = 1, timestamp = 10\<rparr>, CloseCurrentBatch))
   \<and> batchClosed (transact standin deployed (\<lparr>sender = 1, timestamp = 10\<rparr>, CloseCurrentBatch)) 1"
proof -
  have o: "openNewBatch \<lparr>sender = 1, timestamp = 10\<rparr> deployed
     = Inr (transact standin deployed (\<lparr>sender = 1, timestamp = 10\<rparr>, OpenNewBatch))"
    by (simp add: eval_defs)
  have c: "closeCurrentBatch \<lparr>sender = 1, timestamp = 10\<rparr> deployed
     = Inr (transact standin deployed (\<lparr>sender = 1, timestamp = 10\<rparr>, CloseCurrentBatch))"
    by (simp add: eval_defs)
  have b: "currentBatchId deployed = 1" by (simp add: deployed_def constructor_def)
  show ?thesis
    using currentBatchId_increases [of "\<lparr>sender = 1, timestamp = 0\<rparr>" deployed standin "[]"
        "\<lparr>sender = 1, timestamp = 10\<rparr>"
        "transact standin deployed (\<lparr>sender = 1, timestamp = 10\<rparr>, OpenNewBatch)"
        "transact standin deployed (\<lparr>sender = 1, timestamp = 10\<rparr>, CloseCurrentBatch)"] o c b
    by simp
qed

subsection \<open>Providers\<close>

text \<open>
  C8: when the owner calls \<open>addProvider\<close> for an address that is a provider, or
  \<open>removeProvider\<close> for one that is not, the call succeeds and returns the storage and
  the event log as they were; otherwise the flag of that address alone is flipped and one
  event, \<open>ProviderAdded\<close> or \<open>ProviderRemoved\<close>, is appended.
\<close>

theorem providers_idempotent:
  "sender m = owner s \<Longrightarrow>
     addProvider m a s =
       (if isProvider s a then Inr s
        else Inr (s\<lparr>isProvider := (isProvider s)(a := True), events := events s @ [ProviderAdded a]\<rparr>))
   \<and> removeProvider m a s =
       (if \<not> isProvider s a then Inr s
        else Inr (s\<lparr>isProvider := (isProvider s)(a := False), events := events s @ [ProviderRemoved a]\<rparr>))"
  by (simp add: addProvider_def removeProvider_def modifier_defs)

theorem providers_idempotent_witness:
  "addProvider \<lparr>sender = 1, timestamp = 5\<rparr> 1 deployed = Inr deployed
   \<and> removeProvider \<lparr>sender = 1, timestamp = 5\<rparr> 2 deployed = Inr deployed
   \<and> addProvider \<lparr>sender = 1, timestamp = 5\<rparr> 2 deployed
       = Inr (deployed\<lparr>isProvider := (isProvider deployed)(2 := True),
                      events := events deployed @ [ProviderAdded 2]\<rparr>)"
  using providers_idempotent [of "\<lparr>sender = 1, timestamp = 5\<rparr>" deployed 1]
    providers_idempotent [of "\<lparr>sender = 1, timestamp = 5\<rparr>" deployed 2]
  by (simp add: deployed_def constructor_def)

subsection \<open>Ownership\<close>

text \<open>
  C10: a \<open>transferOwnership\<close> by the owner succeeds for every \<open>newOwner\<close>, the zero
  address included, and changes the owner field only (with one \<open>OwnershipTransferred\<close>
  event): the provider flags are as before. Once the owner is the zero address it stays
  so along every sequence of transactions sent from non-zero addresses, and every
  owner-only call from such an address reverts with \<open>NotOwner\<close>.
\<close>

theorem transferOwnership_frame:
  "(sender m = owner s \<longrightarrow>
      transferOwnership m newOwner s =
        Inr (s\<lparr>owner := newOwner, events := events s @ [OwnershipTransferred (owner s) newOwner]\<rparr>))
   \<and> (owner s = 0 \<and> (\<forall>tx \<in> set txs. sender (fst tx) \<noteq> 0) \<longrightarrow>
        owner (run F s txs) = 0
        \<and> (\<forall>m' c. sender m' \<noteq> 0 \<and> ownerOnly c \<longrightarrow> exec F m' c (run F s txs) = Inl NotOwner))"
proof (intro conjI impI allI)
  assume "sender m = owner s"
  then show "transferOwnership m newOwner s =
      Inr (s\<lparr>owner := newOwner, events := events s @ [OwnershipTransferred (owner s) newOwner]\<rparr>)"
    by (simp add: transferOwnership_def modifier_defs Let_def)
next
  assume a: "owner s = 0 \<and> (\<forall>tx \<in> set txs. sender (fst tx) \<noteq> 0)"
  then show z: "owner (run F s txs) = 0" by (simp add: run_owner_zero)
  fix m' :: msg and c
  assume "sender m' \<noteq> 0 \<and> ownerOnly c"
  with z show "exec F m' c (run F s txs) = Inl NotOwner"
    by (simp add: ownerOnly_NotOwner)
qed

theorem transferOwnership_frame_witness:
  "transferOwnership \<lparr>sender = 1, timestamp = 5\<rparr> 0 deployed = Inr renounced
   \<and> isProvider renounced 1
   \<and> owner (run standin renounced [(\<lparr>sender = 1, timestamp = 9\<rparr>, TransferOwnership 1)]) = 0
   \<and> exec standin \<lparr>sender = 1, timestamp = 9\<rparr> (TransferOwnership 1)
        (run standin renounced [(\<lparr>sender = 1, timestamp = 9\<rparr>, TransferOwnership 1)]) = Inl NotOwner"
proof -
  have a: "transferOwnership \<lparr>sender = 1, timestamp = 5\<rparr> 0 deployed = Inr renounced"
    using transferOwnership_frame [of "\<lparr>sender = 1, timestamp = 5\<rparr>" deployed 0 "[]" standin]
    by (simp add: renounced_def deployed_def constructor_def)
  have b: "owner (run standin renounced [(\<lparr>sender = 1, timestamp = 9\<rparr>, TransferOwnership 1)]) = 0
      \<and> (\<forall>m' c. sender m' \<noteq> 0 \<and> ownerOnly c \<longrightarrow>
            exec standin m' c (run standin renounced [(\<lparr>sender = 1, timestamp = 9\<rparr>, TransferOwnership 1)])
              = Inl NotOwner)"
    using transferOwnership_frame [of "\<lparr>sender = 1, timestamp = 5\<rparr>" renounced 0
        "[(\<lparr>sender = 1, timestamp = 9\<rparr>, TransferOwnership 1)]" standin]
    by (simp add: renounced_def deployed_def constructor_def)
  have c: "exec standin \<lparr>sender = 1, timestamp = 9\<rparr> (TransferOwnership 1)
        (run standin renounced [(\<lparr>sender = 1, timestamp = 9\<rparr>, TransferOwnership 1)]) = Inl NotOwner"
    using b [THEN conjunct2, rule_format, of "\<lparr>sender = 1, timestamp = 9\<rparr>" "TransferOwnership 1"]
    by simp
  have d: "isProvider renounced 1"
    by (simp add: renounced_def deployed_def constructor_def)
  from a b c d show ?thesis by blast
qed

subsection \<open>Order of the checks of submitLifeSignal and the cooldown\<close>

lemma submitLifeSignal_Inr:
  assumes "submitLifeSignal F m e s = Inr s'"
  shows "isProvider s (sender m) \<and> \<not> paused s \<and> \<not> batchClosed s (currentBatchId s)
     \<and> unat (lastSubmissionTime s (sender m)) + unat (cooldownSeconds s) \<le> unat (timestamp m)
     \<and> s' = s\<lparr>lastSubmissionTime := (lastSubmissionTime s)(sender m := timestamp m),
               encryptedLastSignalTimestamp :=
                 fhe_max F (encryptedLastSignalTimestamp s) (asEuint32 F e),
               events := events s @ [SignalSubmitted (sender m) (currentBatchId s)]\<rparr>"
  using assms
  by (auto simp: submitLifeSignal_def modifier_defs checked_add_def initIfNeeded_def Let_def
      less_iff_fits split: if_splits)

lemma submitLifeSignal_cases:
  fixes F m e s
  defines "L \<equiv> unat (lastSubmissionTime s (sender m)) + unat (cooldownSeconds s)"
  defines "res \<equiv> submitLifeSignal F m e s"
  shows "(\<not> isProvider s (sender m) \<longrightarrow> res = Inl NotProvider)
       \<and> (isProvider s (sender m) \<and> paused s \<longrightarrow> res = Inl Paused)
       \<and> (isProvider s (sender m) \<and> \<not> paused s \<and> 2 ^ 256 \<le> L \<longrightarrow> res = Inl Panic)
       \<and> (isProvider s (sender m) \<and> \<not> paused s \<and> L < 2 ^ 256 \<and> unat (timestamp m) < L
            \<longrightarrow> res = Inl CooldownActive)
       \<and> (isProvider s (sender m) \<and> \<not> paused s \<and> L \<le> unat (timestamp m)
            \<and> batchClosed s (currentBatchId s) \<longrightarrow> res = Inl BatchClosedOrInvalid)
       \<and> (isProvider s (sender m) \<and> \<not> paused s \<and> L \<le> unat (timestamp m)
            \<and> \<not> batchClosed s (currentBatchId s) \<longrightarrow> (\<exists>s'. res = Inr s'))"
proof -
  have fits: "L \<le> unat (timestamp m) \<Longrightarrow> L < 2 ^ 256"
    using unsigned_less [of "timestamp m", where 'a = nat] by simp
  have lim: "L \<le> unat (timestamp m) \<Longrightarrow>
      checked_add (lastSubmissionTime s (sender m)) (cooldownSeconds s)
        = Inr (lastSubmissionTime s (sender m) + cooldownSeconds s)
      \<and> \<not> timestamp m < lastSubmissionTime s (sender m) + cooldownSeconds s"
    using fits by (simp add: L_def checked_add_Inr less_iff_fits)
  show ?thesis
    unfolding res_def submitLifeSignal_def
    apply (intro conjI impI)
         apply (simp add: modifier_defs)
        apply (simp add: modifier_defs)
       apply (simp add: modifier_defs checked_add_Inl L_def)
      apply (simp add: modifier_defs checked_add_Inr less_iff_fits L_def)
     apply (simp add: modifier_defs lim)
    apply (simp add: modifier_defs lim Let_def)
    done
qed

text \<open>
  C6, as the claim states it, fails: the cooldown check adds
  \<open>lastSubmissionTime[caller] + cooldownSeconds\<close> in checked arithmetic. After the owner
  has set the cooldown to \<open>2^256 - 1\<close>, a provider that submitted at time 100 calls
  again at time 200, inside the cooldown window: the sum overflows and the call reverts
  with a panic, not with \<open>CooldownActive\<close>.
\<close>

theorem submitLifeSignal_cooldown_overflow:
  "isProvider deployed_long_cooldown 1
   \<and> \<not> paused deployed_long_cooldown
   \<and> unat (200 :: uint256)
        < unat (lastSubmissionTime deployed_long_cooldown 1) + unat (cooldownSeconds deployed_long_cooldown)
   \<and> submitLifeSignal standin \<lparr>sender = 1, timestamp = 200\<rparr> 2000 deployed_long_cooldown = Inl Panic
   \<and> submitLifeSignal standin \<lparr>sender = 1, timestamp = 200\<rparr> 2000 deployed_long_cooldown
        \<noteq> Inl CooldownActive"
  by (simp add: deployed_long_cooldown_def signalled_def eval_defs)

text \<open>
  C6, amended: \<open>submitLifeSignal\<close> checks, in this order, \<open>NotProvider\<close>, \<open>Paused\<close>,
  the cooldown, \<open>BatchClosedOrInvalid\<close>. The cooldown check reverts with
  \<open>CooldownActive\<close> whenever \<open>now < lastSubmissionTime[caller] + cooldownSeconds\<close> and
  that sum fits in 256 bits, and with a panic when it does not fit. So, for the same
  provider, after a first call that succeeds at time \<open>t\<close>, a second call before
  \<open>t + cooldownSeconds\<close> (a sum that fits) reverts with \<open>CooldownActive\<close> and leaves the
  storage as it was, and a third call at or after \<open>t + cooldownSeconds\<close> succeeds.
\<close>

theorem submitLifeSignal_order:
  fixes F m e s
  defines "L \<equiv> unat (lastSubmissionTime s (sender m)) + unat (cooldownSeconds s)"
  defines "res \<equiv> submitLifeSignal F m e s"
  shows "(\<not> isProvider s (sender m) \<longrightarrow> res = Inl NotProvider)
       \<and> (isProvider s (sender m) \<and> paused s \<longrightarrow> res = Inl Paused)
       \<and> (isProvider s (sender m) \<and> \<not> paused s \<and> 2 ^ 256 \<le> L \<longrightarrow> res = Inl Panic)
       \<and> (isProvider s (sender m) \<and> \<not> paused s \<and> L < 2 ^ 256 \<and> unat (timestamp m) < L
            \<longrightarrow> res = Inl CooldownActive)
       \<and> (isProvider s (sender m) \<and> \<not> paused s \<and> L \<le> unat (timestamp m)
            \<and> batchClosed s (currentBatchId s) \<longrightarrow> res = Inl BatchClosedOrInvalid)
       \<and> (isProvider s (sender m) \<and> \<not> paused s \<and> L \<le> unat (timestamp m)
            \<and> \<not> batchClosed s (currentBatchId s) \<longrightarrow> (\<exists>s'. res = Inr s'))
       \<and> (res = Inr s1 \<and> sender m2 = sender m
            \<and> unat (timestamp m) + unat (cooldownSeconds s) < 2 ^ 256
            \<and> unat (timestamp m2) < unat (timestamp m) + unat (cooldownSeconds s)
            \<longrightarrow> submitLifeSignal F m2 e2 s1 = Inl CooldownActive
                \<and> transact F s1 (m2, SubmitLifeSignal e2) = s1)
       \<and> (res = Inr s1 \<and> sender m3 = sender m
            \<and> unat (timestamp m) + unat (cooldownSeconds s) \<le> unat (timestamp m3)
            \<longrightarrow> (\<exists>s3. submitLifeSignal F m3 e3 s1 = Inr s3))"
proof -
  note c = submitLifeSignal_cases [of s m F e, folded L_def res_def]
  have second: "submitLifeSignal F m2 e2 s1 = Inl CooldownActive
                \<and> transact F s1 (m2, SubmitLifeSignal e2) = s1"
    if "res = Inr s1" "sender m2 = sender m"
      "unat (timestamp m) + unat (cooldownSeconds s) < 2 ^ 256"
      "unat (timestamp m2) < unat (timestamp m) + unat (cooldownSeconds s)"
  proof -
    from that(1) have s1: "isProvider s1 (sender m2)" "\<not> paused s1"
      "lastSubmissionTime s1 (sender m2) = timestamp m" "cooldownSeconds s1 = cooldownSeconds s"
      using submitLifeSignal_Inr [of F m e s s1] that(2) by (simp_all add: res_def)
    have "submitLifeSignal F m2 e2 s1 = Inl CooldownActive"
      using submitLifeSignal_cases [of s1 m2 F e2] s1 that(3,4) by simp
    then show ?thesis by (simp add: transact_def)
  qed
  have third: "\<exists>s3. submitLifeSignal F m3 e3 s1 = Inr s3"
    if "res = Inr s1" "sender m3 = sender m"
      "unat (timestamp m) + unat (cooldownSeconds s) \<le> unat (timestamp m3)"
  proof -
    from that(1) have s1: "isProvider s1 (sender m3)" "\<not> paused s1"
      "lastSubmissionTime s1 (sender m3) = timestamp m" "cooldownSeconds s1 = cooldownSeconds s"
      "\<not> batchClosed s1 (currentBatchId s1)"
      using submitLifeSignal_Inr [of F m e s s1] that(2) by (simp_all add: res_def)
    show ?thesis
      using submitLifeSignal_cases [of s1 m3 F e3] s1 that(3) by simp
  qed
  from c second third show ?thesis by blast
qed



theorem submitLifeSignal_order_witness:
  "submitLifeSignal standin \<lparr>sender = 2, timestamp = 100\<rparr> 1000 deployed = Inl NotProvider
   \<and> submitLifeSignal standin \<lparr>sender = 1, timestamp = 100\<rparr> 1000 deployed_paused = Inl Paused
   \<and> submitLifeSignal standin \<lparr>sender = 1, timestamp = 100\<rparr> 1000 deployed = Inr signalled
   \<and> submitLifeSignal standin \<lparr>sender = 1, timestamp = 130\<rparr> 1030 signalled = Inl CooldownActive
   \<and> transact standin signalled (\<lparr>sender = 1, timestamp = 130\<rparr>, SubmitLifeSignal 1030) = signalled
   \<and> (\<exists>s3. submitLifeSignal standin \<lparr>sender = 1, timestamp = 160\<rparr> 1060 signalled = Inr s3)"
proof -
  have first: "submitLifeSignal standin \<lparr>sender = 1, timestamp = 100\<rparr> 1000 deployed = Inr signalled"
    by (simp add: signalled_def eval_defs)
  have d: "cooldownSeconds deployed = 60" "isProvider deployed 1" "\<not> isProvider deployed 2"
    "paused deployed_paused" "isProvider deployed_paused 1"
    by (simp_all add: deployed_paused_def eval_defs)
  have a: "submitLifeSignal standin \<lparr>sender = 2, timestamp = 100\<rparr> 1000 deployed = Inl NotProvider"
    using d submitLifeSignal_order [of deployed "\<lparr>sender = 2, timestamp = 100\<rparr>" standin 1000]
    by simp
  have b: "submitLifeSignal standin \<lparr>sender = 1, timestamp = 100\<rparr> 1000 deployed_paused = Inl Paused"
    using d submitLifeSignal_order [of deployed_paused "\<lparr>sender = 1, timestamp = 100\<rparr>" standin 1000]
    by simp
  note t = submitLifeSignal_order [of deployed "\<lparr>sender = 1, timestamp = 100\<rparr>" standin 1000 signalled
        "\<lparr>sender = 1, timestamp = 130\<rparr>" 1030 "\<lparr>sender = 1, timestamp = 160\<rparr>" 1060]
  have c: "submitLifeSignal standin \<lparr>sender = 1, timestamp = 130\<rparr> 1030 signalled = Inl CooldownActive
     \<and> transact standin signalled (\<lparr>sender = 1, timestamp = 130\<rparr>, SubmitLifeSignal 1030) = signalled"
    using t first d(1) by simp
  have e: "\<exists>s3. submitLifeSignal standin \<lparr>sender = 1, timestamp = 160\<rparr> 1060 signalled = Inr s3"
    using t first d(1) by simp
  from first a b c e show ?thesis by blast
qed

subsection \<open>Encoding and decoding of the cleartexts\<close>

lemma abi_roundtrip_word: "word_rcat (abi_encode_uint256 w) = w"
proof (rule bit_word_eqI)
  fix n
  assume n: "n < LENGTH(256)"
  then have d: "n div 8 < 32" by simp
  have len: "length (abi_encode_uint256 w) = 32" by (simp add: abi_encode_uint256_def)
  have k: "[0..<32] ! (31 - n div 8) = 31 - n div 8"
    by (subst nth_upt) simp_all
  have "rev (abi_encode_uint256 w) ! (n div 8) = abi_encode_uint256 w ! (31 - n div 8)"
    using d by (simp add: rev_nth len)
  also have "\<dots> = ucast (drop_bit (8 * (31 - (31 - n div 8))) w)"
    unfolding abi_encode_uint256_def using k by (subst nth_map) simp_all
  also have "31 - (31 - n div 8) = n div 8"
    using d by simp
  finally have nth: "rev (abi_encode_uint256 w) ! (n div 8) = ucast (drop_bit (8 * (n div 8)) w)" .
  have "bit (horner_sum uint (2 ^ LENGTH(8)) (rev (abi_encode_uint256 w)) :: int) n
      \<longleftrightarrow> n div LENGTH(8) < length (rev (abi_encode_uint256 w))
        \<and> bit (rev (abi_encode_uint256 w) ! (n div LENGTH(8))) (n mod LENGTH(8))"
    by (rule bit_horner_sum_uint_exp_iff)
  then have h: "bit (horner_sum uint 256 (rev (abi_encode_uint256 w)) :: int) n
      \<longleftrightarrow> bit (rev (abi_encode_uint256 w) ! (n div 8)) (n mod 8)"
    using d by (simp add: len)
  have "bit (word_rcat (abi_encode_uint256 w) :: 256 word) n
      \<longleftrightarrow> bit (rev (abi_encode_uint256 w) ! (n div 8)) (n mod 8)"
    using n by (simp add: word_rcat_def bit_word_of_int_iff h)
  also have "\<dots> \<longleftrightarrow> bit w n"
    by (simp add: nth bit_ucast_iff bit_drop_bit_eq)
  finally show "bit (word_rcat (abi_encode_uint256 w) :: 256 word) n \<longleftrightarrow> bit w n" .
qed

lemma length_abi_encode_uint256: "length (abi_encode_uint256 w) = 32"
  by (simp add: abi_encode_uint256_def)

lemma abi_decode_encode_uint256: "abi_decode_uint256 (abi_encode_uint256 w) = Inr w"
  by (simp add: abi_decode_uint256_def abi_roundtrip_word length_abi_encode_uint256)

lemma abi_decode_encode_bool: "abi_decode_bool (abi_encode_bool b) = Inr b"
  by (simp add: abi_decode_bool_def abi_encode_bool_def abi_decode_encode_uint256 andThen_def)

lemma slices_of_three:
  assumes "length a = 32" "length b = 32" "length c = 32"
  shows "slice (a @ b @ c) 0 32 = Inr a" "slice (a @ b @ c) 32 64 = Inr b" "slice (a @ b @ c) 64 96 = Inr c"
  using assms by (simp_all add: slice_def)

subsection \<open>A trigger check and its callback\<close>

lemma ciphertexts_cong:
  "encryptedLastSignalTimestamp s' = encryptedLastSignalTimestamp s \<Longrightarrow>
   encryptedInactivityThreshold s' = encryptedInactivityThreshold s \<Longrightarrow>
   timestamp m' = timestamp m \<Longrightarrow>
   ciphertexts F m' s' = ciphertexts F m s"
  by (simp add: ciphertexts_def)

lemma checkInheritanceTrigger_Inr:
  assumes "checkInheritanceTrigger F m r s = Inr s1"
  shows "s1 = s\<lparr>lastDecryptionRequestTime := (lastDecryptionRequestTime s)(sender m := timestamp m),
               decryptionContexts := (decryptionContexts s)
                 (r := \<lparr>batchId = currentBatchId s,
                        stateHash = hashCiphertexts F (ciphertexts F m s),
                        processed = False\<rparr>),
               events := events s @ [DecryptionRequested r (currentBatchId s)]\<rparr>"
proof -
  have "ciphertexts F m (s\<lparr>lastDecryptionRequestTime := (lastDecryptionRequestTime s)(sender m := timestamp m)\<rparr>)
      = ciphertexts F m s"
    by (rule ciphertexts_cong) simp_all
  with assms show ?thesis
    by (auto simp: checkInheritanceTrigger_def modifier_defs Let_def split: if_splits sum.splits)
qed

lemma myCallback_decoded:
  assumes "\<not> processed (decryptionContexts s r)"
    and "hashCiphertexts F (ciphertexts F m s) = stateHash (decryptionContexts s r)"
    and "checkSignatures F r (abi_encode_uint256 a @ abi_encode_uint256 b @ abi_encode_bool t) prf"
  shows "myCallback F m r (abi_encode_uint256 a @ abi_encode_uint256 b @ abi_encode_bool t) prf s
    = Inr (s\<lparr>decryptionContexts := (decryptionContexts s)
                 (r := (decryptionContexts s r)\<lparr>processed := True\<rparr>),
              events := events s @ [DecryptionCompleted r (batchId (decryptionContexts s r)) a b t]\<rparr>)"
proof -
  have l: "length (abi_encode_uint256 a) = 32" "length (abi_encode_uint256 b) = 32"
    "length (abi_encode_bool t) = 32"
    by (simp_all add: abi_encode_bool_def length_abi_encode_uint256)
  note sl = slices_of_three [OF l]
  show ?thesis
    using assms
    by (simp add: myCallback_def Let_def sl andThen_def abi_decode_encode_uint256
        abi_decode_encode_bool emit_def)
qed


lemma armed_requested:
  "checkInheritanceTrigger standin \<lparr>sender = 2, timestamp = 1600\<rparr> 7 armed = Inr requested"
  by (simp add: requested_def armed_def signalled_def eval_defs)







subsection \<open>Replay of a callback\<close>

lemma exec_processed:
  "exec F m c s = Inr s' \<Longrightarrow> c \<noteq> CheckInheritanceTrigger r \<Longrightarrow>
     processed (decryptionContexts s r) \<Longrightarrow> processed (decryptionContexts s' r)"
proof (cases c)
  case (MyCallback r' ct p)
  assume "exec F m c s = Inr s'" "processed (decryptionContexts s r)"
  with MyCallback show ?thesis by (auto dest: myCallback_Inr)
next
  case (CheckInheritanceTrigger r')
  assume "exec F m c s = Inr s'" "processed (decryptionContexts s r)" "c \<noteq> CheckInheritanceTrigger r"
  with CheckInheritanceTrigger show ?thesis
    by (auto dest: checkInheritanceTrigger_Inr)
qed (auto simp: function_defs modifier_defs initIfNeeded_def Let_def split: if_splits sum.splits)

lemma run_processed:
  "processed (decryptionContexts s r) \<Longrightarrow> \<forall>tx \<in> set txs. snd tx \<noteq> CheckInheritanceTrigger r \<Longrightarrow>
     processed (decryptionContexts (run F s txs) r)"
proof (induction txs arbitrary: s)
  case Nil
  then show ?case by (simp add: run_Nil)
next
  case (Cons tx txs)
  have "processed (decryptionContexts (transact F s tx) r)"
    using Cons.prems
    by (cases "exec F (fst tx) (snd tx) s") (auto simp: transact_def dest: exec_processed)
  with Cons show ?case by (simp add: run_Cons)
qed

lemma myCallback_processed:
  "processed (decryptionContexts s r) \<Longrightarrow> myCallback F m r c p s = Inl ReplayDetected"
  by (simp add: myCallback_def)

lemma requested_context:
  "\<not> processed (decryptionContexts requested 7)"
  "hashCiphertexts standin (ciphertexts standin \<lparr>sender = 3, timestamp = 1600\<rparr> requested)
     = stateHash (decryptionContexts requested 7)"
  by (simp_all add: requested_def armed_def signalled_def eval_defs)

lemma requested_completed:
  "myCallback standin \<lparr>sender = 3, timestamp = 1600\<rparr> 7
     (abi_encode_uint256 1000 @ abi_encode_uint256 500 @ abi_encode_bool True) [1] requested
   = Inr completed"
proof -
  have v: "checkSignatures standin 7
      (abi_encode_uint256 1000 @ abi_encode_uint256 500 @ abi_encode_bool True) [1]"
    by (simp add: standin_def)
  note d = myCallback_decoded [OF requested_context v]
  show ?thesis
    unfolding completed_def run_def transact_def by (simp add: d)
qed

text \<open>
  C4: when a delivery of the callback for \<open>requestId\<close> has succeeded, the processed flag
  of its context was false before and is true after; it stays true along every later
  sequence of transactions in which the oracle hands out no second request with the same
  id, and every further delivery for that id, at any time and with any cleartexts and
  proof, reverts with \<open>ReplayDetected\<close> and leaves the storage as the first delivery and
  the later transactions made it.
\<close>

theorem myCallback_replay:
  assumes "myCallback F m r c p s = Inr s1"
  shows "\<not> processed (decryptionContexts s r)
     \<and> processed (decryptionContexts s1 r)
     \<and> ((\<forall>tx \<in> set txs. snd tx \<noteq> CheckInheritanceTrigger r) \<longrightarrow>
           processed (decryptionContexts (run F s1 txs) r)
         \<and> myCallback F m' r c' p' (run F s1 txs) = Inl ReplayDetected
         \<and> transact F (run F s1 txs) (m', MyCallback r c' p') = run F s1 txs)"
proof -
  from assms have a: "\<not> processed (decryptionContexts s r)"
    by (auto simp: myCallback_def split: if_splits)
  from assms have b: "processed (decryptionContexts s1 r)"
    by (auto dest: myCallback_Inr)
  have c: "processed (decryptionContexts (run F s1 txs) r)
         \<and> myCallback F m' r c' p' (run F s1 txs) = Inl ReplayDetected
         \<and> transact F (run F s1 txs) (m', MyCallback r c' p') = run F s1 txs"
    if "\<forall>tx \<in> set txs. snd tx \<noteq> CheckInheritanceTrigger r"
  proof -
    have "processed (decryptionContexts (run F s1 txs) r)"
      using b that by (rule run_processed)
    then show ?thesis by (simp add: myCallback_processed transact_def)
  qed
  from a b c show ?thesis by blast
qed

theorem myCallback_replay_witness:
  "myCallback standin \<lparr>sender = 3, timestamp = 1600\<rparr> 7
     (abi_encode_uint256 1000 @ abi_encode_uint256 500 @ abi_encode_bool True) [1] requested
     = Inr completed
   \<and> \<not> processed (decryptionContexts requested 7)
   \<and> processed (decryptionContexts completed 7)
   \<and> myCallback standin \<lparr>sender = 3, timestamp = 1600\<rparr> 7
       (abi_encode_uint256 1000 @ abi_encode_uint256 500 @ abi_encode_bool True) [1]
       (run standin completed [(\<lparr>sender = 1, timestamp = 1700\<rparr>, SubmitLifeSignal 1650)])
     = Inl ReplayDetected
   \<and> myCallback standin \<lparr>sender = 3, timestamp = 1600\<rparr> 7
       (abi_encode_uint256 1000 @ abi_encode_uint256 500 @ abi_encode_bool True) [1] completed
     = Inl ReplayDetected
   \<and> transact standin completed (\<lparr>sender = 3, timestamp = 1600\<rparr>, MyCallback 7
       (abi_encode_uint256 1000 @ abi_encode_uint256 500 @ abi_encode_bool True) [1]) = completed"
proof -
  note t1 = myCallback_replay [OF requested_completed,
      of "[(\<lparr>sender = 1, timestamp = 1700\<rparr>, SubmitLifeSignal 1650)]"
      "\<lparr>sender = 3, timestamp = 1600\<rparr>"
      "abi_encode_uint256 1000 @ abi_encode_uint256 500 @ abi_encode_bool True" "[1]"]
  note t2 = myCallback_replay [OF requested_completed, of "[]"
      "\<lparr>sender = 3, timestamp = 1600\<rparr>"
      "abi_encode_uint256 1000 @ abi_encode_uint256 500 @ abi_encode_bool True" "[1]"]
  have a: "myCallback standin \<lparr>sender = 3, timestamp = 1600\<rparr> 7
       (abi_encode_uint256 1000 @ abi_encode_uint256 500 @ abi_encode_bool True) [1]
       (run standin completed [(\<lparr>sender = 1, timestamp = 1700\<rparr>, SubmitLifeSignal 1650)])
     = Inl ReplayDetected"
    using t1 by simp
  have b: "myCallback standin \<lparr>sender = 3, timestamp = 1600\<rparr> 7
       (abi_encode_uint256 1000 @ abi_encode_uint256 500 @ abi_encode_bool True) [1] completed
     = Inl ReplayDetected
   \<and> transact standin completed (\<lparr>sender = 3, timestamp = 1600\<rparr>, MyCallback 7
       (abi_encode_uint256 1000 @ abi_encode_uint256 500 @ abi_encode_bool True) [1]) = completed"
    using t2 by (simp add: run_Nil)
  from requested_completed t2 a b show ?thesis by blast
qed


subsection \<open>A life signal between the check and the callback\<close>

lemma requested_resignalled:
  "submitLifeSignal standin \<lparr>sender = 1, timestamp = 1700\<rparr> 1650 requested = Inr resignalled"
  by (simp add: resignalled_def requested_def armed_def signalled_def eval_defs)

lemma resignalled_stale_context:
  "\<not> processed (decryptionContexts resignalled_stale 7)"
  "hashCiphertexts standin (ciphertexts standin \<lparr>sender = 3, timestamp = 1800\<rparr> resignalled_stale)
     = stateHash (decryptionContexts resignalled_stale 7)"
  by (simp_all add: resignalled_stale_def requested_def armed_def signalled_def eval_defs)

text \<open>
  C3, as the claim states it, fails: the hash binds the handles, and a life signal need
  not change the handle of the aggregate. On the stand-in, after the check at time 1600
  the provider submits the older signal 900 at time 1700; the call succeeds and the
  maximum is the handle it was. The callback at time 1800 recomputes the stored hash,
  does not revert with \<open>StateMismatch\<close>, succeeds and marks the request processed.
\<close>

theorem stale_callback_accepted:
  "checkInheritanceTrigger standin \<lparr>sender = 2, timestamp = 1600\<rparr> 7 armed = Inr requested
   \<and> submitLifeSignal standin \<lparr>sender = 1, timestamp = 1700\<rparr> 900 requested = Inr resignalled_stale
   \<and> myCallback standin \<lparr>sender = 3, timestamp = 1800\<rparr> 7
        (abi_encode_uint256 1000 @ abi_encode_uint256 500 @ abi_encode_bool True) [1] resignalled_stale
      = Inr stale_completed
   \<and> myCallback standin \<lparr>sender = 3, timestamp = 1800\<rparr> 7
        (abi_encode_uint256 1000 @ abi_encode_uint256 500 @ abi_encode_bool True) [1] resignalled_stale
      \<noteq> Inl StateMismatch
   \<and> processed (decryptionContexts stale_completed 7)"
proof -
  have s: "submitLifeSignal standin \<lparr>sender = 1, timestamp = 1700\<rparr> 900 requested = Inr resignalled_stale"
    by (simp add: resignalled_stale_def requested_def armed_def signalled_def eval_defs)
  have v: "checkSignatures standin 7
      (abi_encode_uint256 1000 @ abi_encode_uint256 500 @ abi_encode_bool True) [1]"
    by (simp add: standin_def)
  note d = myCallback_decoded [OF resignalled_stale_context v]
  have c: "myCallback standin \<lparr>sender = 3, timestamp = 1800\<rparr> 7
        (abi_encode_uint256 1000 @ abi_encode_uint256 500 @ abi_encode_bool True) [1] resignalled_stale
      = Inr stale_completed"
    unfolding stale_completed_def run_def transact_def by (simp add: d)
  from myCallback_Inr [OF c] obtain ev where e: "stale_completed
      = resignalled_stale\<lparr>decryptionContexts := (decryptionContexts resignalled_stale)
            (7 := (decryptionContexts resignalled_stale 7)\<lparr>processed := True\<rparr>),
          events := events resignalled_stale @ [ev]\<rparr>"
    by blast
  have p: "processed (decryptionContexts stale_completed 7)"
    by (subst e) simp
  from armed_requested s c p show ?thesis by simp
qed

text \<open>
  C3, amended: when a \<open>submitLifeSignal\<close> succeeds after a \<open>checkInheritanceTrigger\<close>
  and before the callback and changes the serialised handle of the aggregate, the hash
  that the callback recomputes differs from the stored \<open>stateHash\<close> (the hash not
  colliding on the two lists of handles), the callback reverts with \<open>StateMismatch\<close>,
  the context stays unprocessed and the storage is unchanged. When the three handles
  that the callback rebuilds are those of the request, the callback reverts neither
  with \<open>StateMismatch\<close> nor with \<open>ReplayDetected\<close>.
\<close>

theorem signal_between_check_and_callback:
  assumes check: "checkInheritanceTrigger F m1 r s = Inr s1"
    and submit: "submitLifeSignal F m2 e s1 = Inr s2"
  shows "(toBytes32 F (encryptedLastSignalTimestamp s2) \<noteq> toBytes32 F (encryptedLastSignalTimestamp s1)
          \<and> (ciphertexts F m3 s2 \<noteq> ciphertexts F m1 s \<longrightarrow>
               hashCiphertexts F (ciphertexts F m3 s2) \<noteq> hashCiphertexts F (ciphertexts F m1 s))
          \<longrightarrow> hashCiphertexts F (ciphertexts F m3 s2) \<noteq> stateHash (decryptionContexts s2 r)
              \<and> myCallback F m3 r c p s2 = Inl StateMismatch
              \<and> \<not> processed (decryptionContexts s2 r)
              \<and> transact F s2 (m3, MyCallback r c p) = s2)
       \<and> (ciphertexts F m3 s2 = ciphertexts F m1 s
          \<longrightarrow> myCallback F m3 r c p s2 \<noteq> Inl StateMismatch
              \<and> myCallback F m3 r c p s2 \<noteq> Inl ReplayDetected)"
proof -
  note s1 = checkInheritanceTrigger_Inr [OF check]
  from submitLifeSignal_Inr [OF submit]
  have s2: "s2 = s1\<lparr>lastSubmissionTime := (lastSubmissionTime s1)(sender m2 := timestamp m2),
               encryptedLastSignalTimestamp :=
                 fhe_max F (encryptedLastSignalTimestamp s1) (asEuint32 F e),
               events := events s1 @ [SignalSubmitted (sender m2) (currentBatchId s1)]\<rparr>"
    by simp
  have e1: "encryptedLastSignalTimestamp s1 = encryptedLastSignalTimestamp s"
    by (subst s1) simp
  have ctx1: "decryptionContexts s1 r = \<lparr>batchId = currentBatchId s,
      stateHash = hashCiphertexts F (ciphertexts F m1 s), processed = False\<rparr>"
    by (subst s1) simp
  have ctx: "decryptionContexts s2 r = \<lparr>batchId = currentBatchId s,
      stateHash = hashCiphertexts F (ciphertexts F m1 s), processed = False\<rparr>"
    by (subst s2) (simp add: ctx1)
  have p: "\<not> processed (decryptionContexts s2 r)"
    by (simp add: ctx)
  have h3: "hd (ciphertexts F m3 s2) = toBytes32 F (encryptedLastSignalTimestamp s2)"
    by (simp add: ciphertexts_def)
  have h1: "hd (ciphertexts F m1 s) = toBytes32 F (encryptedLastSignalTimestamp s1)"
    by (simp add: ciphertexts_def e1)
  have changed: "hashCiphertexts F (ciphertexts F m3 s2) \<noteq> stateHash (decryptionContexts s2 r)
              \<and> myCallback F m3 r c p s2 = Inl StateMismatch
              \<and> \<not> processed (decryptionContexts s2 r)
              \<and> transact F s2 (m3, MyCallback r c p) = s2"
    if a: "toBytes32 F (encryptedLastSignalTimestamp s2) \<noteq> toBytes32 F (encryptedLastSignalTimestamp s1)
          \<and> (ciphertexts F m3 s2 \<noteq> ciphertexts F m1 s \<longrightarrow>
               hashCiphertexts F (ciphertexts F m3 s2) \<noteq> hashCiphertexts F (ciphertexts F m1 s))"
  proof -
    from a h1 h3 have "ciphertexts F m3 s2 \<noteq> ciphertexts F m1 s" by auto
    with a have h: "hashCiphertexts F (ciphertexts F m3 s2) \<noteq> stateHash (decryptionContexts s2 r)"
      by (simp add: ctx)
    from h p have m: "myCallback F m3 r c p s2 = Inl StateMismatch"
      by (simp add: myCallback_def Let_def)
    from h p m show ?thesis by (simp add: transact_def)
  qed
  have same: "myCallback F m3 r c p s2 \<noteq> Inl StateMismatch
              \<and> myCallback F m3 r c p s2 \<noteq> Inl ReplayDetected"
    if b: "ciphertexts F m3 s2 = ciphertexts F m1 s"
  proof -
    have h: "hashCiphertexts F (ciphertexts F m3 s2) = stateHash (decryptionContexts s2 r)"
      by (simp add: ctx b)
    show ?thesis
      using h p
      by (auto simp: myCallback_def Let_def andThen_def slice_def abi_decode_uint256_def
          abi_decode_bool_def split: if_splits sum.splits)
  qed
  from changed same show ?thesis by blast
qed

theorem signal_between_check_and_callback_witness:
  "checkInheritanceTrigger standin \<lparr>sender = 2, timestamp = 1600\<rparr> 7 armed = Inr requested
   \<and> submitLifeSignal standin \<lparr>sender = 1, timestamp = 1700\<rparr> 1650 requested = Inr resignalled
   \<and> myCallback standin \<lparr>sender = 3, timestamp = 1800\<rparr> 7
        (abi_encode_uint256 1000 @ abi_encode_uint256 500 @ abi_encode_bool True) [1] resignalled
      = Inl StateMismatch
   \<and> \<not> processed (decryptionContexts resignalled 7)
   \<and> transact standin resignalled (\<lparr>sender = 3, timestamp = 1800\<rparr>, MyCallback 7
        (abi_encode_uint256 1000 @ abi_encode_uint256 500 @ abi_encode_bool True) [1]) = resignalled
   \<and> myCallback standin \<lparr>sender = 3, timestamp = 1800\<rparr> 7
        (abi_encode_uint256 1000 @ abi_encode_uint256 500 @ abi_encode_bool True) [1] resignalled_stale
      \<noteq> Inl StateMismatch"
proof -
  have r: "toBytes32 standin (encryptedLastSignalTimestamp resignalled)
      \<noteq> toBytes32 standin (encryptedLastSignalTimestamp requested)"
    by (simp add: resignalled_def requested_def armed_def signalled_def eval_defs)
  have h: "hashCiphertexts standin (ciphertexts standin \<lparr>sender = 3, timestamp = 1800\<rparr> resignalled)
      \<noteq> hashCiphertexts standin (ciphertexts standin \<lparr>sender = 2, timestamp = 1600\<rparr> armed)"
    by (simp add: resignalled_def requested_def armed_def signalled_def eval_defs)
  note t = signal_between_check_and_callback [OF armed_requested requested_resignalled,
      of "\<lparr>sender = 3, timestamp = 1800\<rparr>"
      "abi_encode_uint256 1000 @ abi_encode_uint256 500 @ abi_encode_bool True" "[1]"]
  from t r h
  have a: "myCallback standin \<lparr>sender = 3, timestamp = 1800\<rparr> 7
        (abi_encode_uint256 1000 @ abi_encode_uint256 500 @ abi_encode_bool True) [1] resignalled
      = Inl StateMismatch
   \<and> \<not> processed (decryptionContexts resignalled 7)
   \<and> transact standin resignalled (\<lparr>sender = 3, timestamp = 1800\<rparr>, MyCallback 7
        (abi_encode_uint256 1000 @ abi_encode_uint256 500 @ abi_encode_bool True) [1]) = resignalled"
    by simp
  have s: "submitLifeSignal standin \<lparr>sender = 1, timestamp = 1700\<rparr> 900 requested = Inr resignalled_stale"
    by (simp add: resignalled_stale_def requested_def armed_def signalled_def eval_defs)
  have e: "ciphertexts standin \<lparr>sender = 3, timestamp = 1800\<rparr> resignalled_stale
      = ciphertexts standin \<lparr>sender = 2, timestamp = 1600\<rparr> armed"
    by (simp add: resignalled_stale_def requested_def armed_def signalled_def eval_defs)
  note u = signal_between_check_and_callback [OF armed_requested s,
      of "\<lparr>sender = 3, timestamp = 1800\<rparr>"
      "abi_encode_uint256 1000 @ abi_encode_uint256 500 @ abi_encode_bool True" "[1]"]
  from u e
  have b: "myCallback standin \<lparr>sender = 3, timestamp = 1800\<rparr> 7
        (abi_encode_uint256 1000 @ abi_encode_uint256 500 @ abi_encode_bool True) [1] resignalled_stale
      \<noteq> Inl StateMismatch"
    by simp
  from armed_requested requested_resignalled a b show ?thesis by simp
qed

subsection \<open>A callback for an unknown request\<close>

lemma odd_word_nonzero: "(1 + 2 * x :: 256 word) \<noteq> 0"
proof
  assume "1 + 2 * x = 0"
  then have "even (1 + 2 * x)" by simp
  then show False by simp
qed

lemma standin_hash_nonzero: "hashCiphertexts standin cts \<noteq> 0"
  by (simp add: hashCiphertexts_def standin_def odd_word_nonzero)

lemma exec_context_default:
  assumes nz: "\<forall>cts. hashCiphertexts F cts \<noteq> 0"
    and ex: "exec F m c s = Inr s'"
    and c: "c \<noteq> CheckInheritanceTrigger r"
    and d: "decryptionContexts s r = \<lparr>batchId = 0, stateHash = 0, processed = False\<rparr>"
  shows "decryptionContexts s' r = \<lparr>batchId = 0, stateHash = 0, processed = False\<rparr>"
proof (cases c)
  case (MyCallback r' ct p)
  show ?thesis
  proof (cases "r' = r")
    case True
    have "myCallback F m r ct p s = Inl StateMismatch"
      using nz d by (simp add: myCallback_def Let_def)
    with ex MyCallback True show ?thesis by simp
  next
    case False
    with ex MyCallback d show ?thesis by (auto dest: myCallback_Inr)
  qed
next
  case (CheckInheritanceTrigger r')
  with ex c d show ?thesis by (auto dest: checkInheritanceTrigger_Inr)
qed (use ex d in \<open>auto simp: function_defs modifier_defs initIfNeeded_def Let_def split: if_splits sum.splits\<close>)

lemma run_context_default:
  assumes nz: "\<forall>cts. hashCiphertexts F cts \<noteq> 0"
  shows "decryptionContexts s r = \<lparr>batchId = 0, stateHash = 0, processed = False\<rparr> \<Longrightarrow>
     \<forall>tx \<in> set txs. snd tx \<noteq> CheckInheritanceTrigger r \<Longrightarrow>
     decryptionContexts (run F s txs) r = \<lparr>batchId = 0, stateHash = 0, processed = False\<rparr>"
proof (induction txs arbitrary: s)
  case Nil
  then show ?case by (simp add: run_Nil)
next
  case (Cons tx txs)
  have "decryptionContexts (transact F s tx) r = \<lparr>batchId = 0, stateHash = 0, processed = False\<rparr>"
  proof (cases "exec F (fst tx) (snd tx) s")
    case (Inl e)
    with Cons.prems show ?thesis by (simp add: transact_def)
  next
    case (Inr s')
    from exec_context_default [OF nz Inr _ Cons.prems(1)] Cons.prems(2) Inr
    show ?thesis by (simp add: transact_def)
  qed
  with Cons show ?case by (simp add: run_Cons)
qed

text \<open>
  C9: after any sequence of transactions from the constructor in which no
  \<open>checkInheritanceTrigger\<close> stored a context under \<open>requestId\<close>, that context is the
  default one (batch 0, hash 0, not processed), so the callback for it passes the replay
  guard and reverts with \<open>StateMismatch\<close>, given that the hash is never zero. The
  \<open>error\<close> type has no not-found case.
\<close>

theorem myCallback_unknown_request:
  assumes "\<forall>cts. hashCiphertexts F cts \<noteq> 0"
    and "\<forall>tx \<in> set txs. snd tx \<noteq> CheckInheritanceTrigger r"
  shows "decryptionContexts (run F (constructor d) txs) r
           = \<lparr>batchId = 0, stateHash = 0, processed = False\<rparr>
     \<and> myCallback F m r c p (run F (constructor d) txs) \<noteq> Inl ReplayDetected
     \<and> myCallback F m r c p (run F (constructor d) txs) = Inl StateMismatch"
proof -
  have "decryptionContexts (constructor d) r = \<lparr>batchId = 0, stateHash = 0, processed = False\<rparr>"
    by (simp add: constructor_def)
  from run_context_default [OF assms(1) this assms(2)]
  have ctx: "decryptionContexts (run F (constructor d) txs) r
           = \<lparr>batchId = 0, stateHash = 0, processed = False\<rparr>" .
  then have "myCallback F m r c p (run F (constructor d) txs) = Inl StateMismatch"
    using assms(1) by (simp add: myCallback_def Let_def)
  with ctx show ?thesis by simp
qed

theorem myCallback_unknown_request_witness:
  "myCallback standin \<lparr>sender = 3, timestamp = 1700\<rparr> 9
      (abi_encode_uint256 1000 @ abi_encode_uint256 500 @ abi_encode_bool True) [1]
      (run standin (constructor \<lparr>sender = 1, timestamp = 0\<rparr>)
         [(\<lparr>sender = 1, timestamp = 100\<rparr>, SubmitLifeSignal 1000),
          (\<lparr>sender = 1, timestamp = 200\<rparr>, SetInactivityThreshold 500),
          (\<lparr>sender = 2, timestamp = 1600\<rparr>, CheckInheritanceTrigger 7)])
    = Inl StateMismatch"
proof -
  have nz: "\<forall>cts. hashCiphertexts standin cts \<noteq> 0"
    by (simp add: standin_hash_nonzero)
  have txs: "\<forall>tx \<in> set [(\<lparr>sender = 1, timestamp = 100\<rparr>, SubmitLifeSignal 1000),
          (\<lparr>sender = 1, timestamp = 200\<rparr>, SetInactivityThreshold 500),
          (\<lparr>sender = 2, timestamp = (1600 :: uint256)\<rparr>, CheckInheritanceTrigger 7)].
        snd tx \<noteq> CheckInheritanceTrigger 9"
    by simp
  from myCallback_unknown_request [OF nz txs] show ?thesis by simp
qed

subsection \<open>The aggregate after a life signal\<close>








end
